theory Spec2Isabelle
  imports Complex_Main "HOL-Library.Sublist" "HOL-Library.AList"
begin

section \<open>The project listing of js/projects.js\<close>

text \<open>
  The listing pipeline of \<^verbatim>\<open>src/js/projects.js\<close>: the catalog is fetched once
  (\<^verbatim>\<open>load\<close>), filtered by a selected tag and a typed query (\<^verbatim>\<open>applyFilters\<close>),
  cut into pages of six and shown (\<^verbatim>\<open>render\<close>); two buttons move between pages.

  The module's variables \<^verbatim>\<open>projects\<close>, \<^verbatim>\<open>filtered\<close>, \<^verbatim>\<open>currentPage\<close> and
  \<^verbatim>\<open>totalPages\<close> and the parts of the page it writes are the fields of one record,
  passed to and returned by every function. A JavaScript exception is a value:
  a function that can throw returns \<open>error + 'a\<close>, with \<open>Inl\<close> for the exception.

  Boundaries of the model. Strings are lists of 8-bit characters read as ASCII:
  \<^verbatim>\<open>toLowerCase\<close> folds A to Z and \<^verbatim>\<open>trim\<close> strips tab, line feed, vertical tab,
  form feed, carriage return and space. A JSON number is an integer that JavaScript
  prints exactly in decimal. All the controls the script looks up (the grid, the
  filter select, the search input, the pagination block with its two buttons and its
  page label) are present in the page. \<^verbatim>\<open>buildCard\<close> is not unfolded: the grid holds
  the records whose cards were appended, in order.
\<close>

subsection \<open>JavaScript values\<close>

datatype jsval =
    JUndefined
  | JNull
  | JBool bool
  | JNum int
  | JStr string
  | JArr "jsval list"
  | JObj "(string \<times> jsval) list"

text \<open>
  The exceptions that reach the \<^verbatim>\<open>catch\<close> of \<^verbatim>\<open>load\<close> or leave an event handler:
  a rejected \<^verbatim>\<open>fetch\<close>, the two \<^verbatim>\<open>throw new Error\<close> of \<^verbatim>\<open>load\<close> (a response that
  is not ok; a body that is not an array), a body that is not JSON, and the
  TypeError of reading a property of \<^verbatim>\<open>null\<close> or calling a method a value lacks.
\<close>

datatype error = FetchRejected | HttpError int | SyntaxError | MalformedCatalog | TypeError

text \<open>Decimal numerals, as a number prints in a template literal.\<close>

definition digit :: "nat \<Rightarrow> char" where
  "digit d = char_of (48 + d)"

fun showNat :: "nat \<Rightarrow> string" where
  "showNat n = (if n < 10 then [digit n] else showNat (n div 10) @ [digit (n mod 10)])"

definition showInt :: "int \<Rightarrow> string" where
  "showInt i = (if i < 0 then CHR ''-'' # showNat (nat (- i)) else showNat (nat i))"

text \<open>\<^verbatim>\<open>String.prototype.toLowerCase\<close>, \<^verbatim>\<open>trim\<close> and \<^verbatim>\<open>includes\<close>.\<close>

definition toLowerChar :: "char \<Rightarrow> char" where
  "toLowerChar c =
     (let n = (of_char c :: nat) in if 65 \<le> n \<and> n \<le> 90 then char_of (n + 32) else c)"

definition toLowerCase :: "string \<Rightarrow> string" where
  "toLowerCase s = map toLowerChar s"

definition isWhitespace :: "char \<Rightarrow> bool" where
  "isWhitespace c = (let n = (of_char c :: nat) in (9 \<le> n \<and> n \<le> 13) \<or> n = 32)"

definition trim :: "string \<Rightarrow> string" where
  "trim s = rev (dropWhile isWhitespace (rev (dropWhile isWhitespace s)))"

fun includesStr :: "string \<Rightarrow> string \<Rightarrow> bool" where
  "includesStr [] q = (q = [])"
| "includesStr (c # cs) q = (prefix q (c # cs) \<or> includesStr cs q)"

text \<open>
  \<^verbatim>\<open>Array.prototype.join\<close> with a separator, truthiness (the left operand of
  \<^verbatim>\<open>||\<close>), and the conversion to a string that a template literal and
  \<^verbatim>\<open>.toString()\<close> perform: an array prints its elements joined by commas, with
  \<^verbatim>\<open>null\<close> and \<^verbatim>\<open>undefined\<close> elements printed as nothing.
\<close>

fun joinWith :: "string \<Rightarrow> string list \<Rightarrow> string" where
  "joinWith sep [] = []"
| "joinWith sep [x] = x"
| "joinWith sep (x # y # ys) = x @ sep @ joinWith sep (y # ys)"

fun truthy :: "jsval \<Rightarrow> bool" where
  "truthy JUndefined = False"
| "truthy JNull = False"
| "truthy (JBool b) = b"
| "truthy (JNum n) = (n \<noteq> 0)"
| "truthy (JStr s) = (s \<noteq> [])"
| "truthy (JArr xs) = True"
| "truthy (JObj fs) = True"

fun toStr :: "jsval \<Rightarrow> string" where
  "toStr JUndefined = ''undefined''"
| "toStr JNull = ''null''"
| "toStr (JBool b) = (if b then ''true'' else ''false'')"
| "toStr (JNum n) = showInt n"
| "toStr (JStr s) = s"
| "toStr (JArr xs) =
     joinWith '','' (map (\<lambda>x. if x = JUndefined \<or> x = JNull then [] else toStr x) xs)"
| "toStr (JObj fs) = ''[object Object]''"

fun isArray :: "jsval \<Rightarrow> bool" where
  "isArray (JArr xs) = True"
| "isArray _ = False"

text \<open>
  Reading a property \<^verbatim>\<open>p.k\<close>, for the keys the script reads (\<^verbatim>\<open>id\<close>, \<^verbatim>\<open>title\<close>,
  \<^verbatim>\<open>description\<close>, \<^verbatim>\<open>tech\<close>, \<^verbatim>\<open>tags\<close>: none is a built-in property of a string,
  a number or an array). An object is the list of its key/value pairs and the first
  pair with the key is its value (\<open>lookup\<close>, \<^verbatim>\<open>undefined\<close> when there is none);
  \<^verbatim>\<open>null\<close> and \<^verbatim>\<open>undefined\<close> throw.
\<close>

definition lookup :: "(string \<times> jsval) list \<Rightarrow> string \<Rightarrow> jsval" where
  "lookup fs k = (case map_of fs k of None \<Rightarrow> JUndefined | Some v \<Rightarrow> v)"

fun getProp :: "jsval \<Rightarrow> string \<Rightarrow> error + jsval" where
  "getProp JUndefined k = Inl TypeError"
| "getProp JNull k = Inl TypeError"
| "getProp (JObj fs) k = Inr (lookup fs k)"
| "getProp _ k = Inr JUndefined"

text \<open>
  The own enumerable properties that a spread \<^verbatim>\<open>...p\<close> copies: the pairs of an
  object, the indexed elements of an array or of a string, nothing otherwise.
\<close>

fun ownProps :: "jsval \<Rightarrow> (string \<times> jsval) list" where
  "ownProps (JObj fs) = fs"
| "ownProps (JArr xs) = zip (map showNat [0..<length xs]) xs"
| "ownProps (JStr s) = zip (map showNat [0..<length s]) (map (\<lambda>c. JStr [c]) s)"
| "ownProps _ = []"

text \<open>
  \<^verbatim>\<open>Array.prototype.map\<close> and \<^verbatim>\<open>filter\<close> with a callback that may throw: the
  elements are visited in order and the first exception ends the call.
  \<^verbatim>\<open>mapIdx\<close> passes the index as well, as \<^verbatim>\<open>data.map((p, i) => ...)\<close> does.
\<close>

fun mapE :: "('a \<Rightarrow> error + 'b) \<Rightarrow> 'a list \<Rightarrow> error + 'b list" where
  "mapE f [] = Inr []"
| "mapE f (x # xs) =
     (case f x of
        Inl e \<Rightarrow> Inl e
      | Inr y \<Rightarrow> (case mapE f xs of Inl e \<Rightarrow> Inl e | Inr ys \<Rightarrow> Inr (y # ys)))"

fun mapIdx :: "('a \<Rightarrow> nat \<Rightarrow> error + 'b) \<Rightarrow> nat \<Rightarrow> 'a list \<Rightarrow> error + 'b list" where
  "mapIdx f i [] = Inr []"
| "mapIdx f i (x # xs) =
     (case f x i of
        Inl e \<Rightarrow> Inl e
      | Inr y \<Rightarrow> (case mapIdx f (Suc i) xs of Inl e \<Rightarrow> Inl e | Inr ys \<Rightarrow> Inr (y # ys)))"

fun filterE :: "('a \<Rightarrow> error + bool) \<Rightarrow> 'a list \<Rightarrow> error + 'a list" where
  "filterE f [] = Inr []"
| "filterE f (x # xs) =
     (case f x of
        Inl e \<Rightarrow> Inl e
      | Inr b \<Rightarrow>
          (case filterE f xs of
             Inl e \<Rightarrow> Inl e
           | Inr ys \<Rightarrow> Inr (if b then x # ys else ys)))"

text \<open>
  \<^verbatim>\<open>Array.prototype.slice(a, b)\<close> on integer bounds: a negative bound counts from
  the end, and both are cut to the length.
\<close>

definition slice :: "'a list \<Rightarrow> int \<Rightarrow> int \<Rightarrow> 'a list" where
  "slice xs a b =
     (let n = int (length xs);
          k = (if a < 0 then max (n + a) 0 else min a n);
          e = (if b < 0 then max (n + b) 0 else min b n)
      in take (nat (e - k)) (drop (nat k) xs))"

subsection \<open>The state\<close>

text \<open>
  What the grid shows: the markup the page came with, the "No projects found."
  placeholder, the "Unable to load projects." notice, or one card per record.
\<close>

datatype grid_content = Markup | EmptyState | UnableToLoad | Cards "jsval list"

datatype control = PrevBtn | NextBtn

record view =
  projects :: "jsval list"
  filtered :: "jsval list"
  currentPage :: int
  totalPages :: int
  grid :: grid_content
  gridLabel :: string
  paginationHidden :: bool
  prevDisabled :: bool
  nextDisabled :: bool
  pageInfo :: string
  focused :: "control option"

definition PER_PAGE :: nat where
  "PER_PAGE = 6"

text \<open>
  The values of the module's variables when the script starts
  (\<^verbatim>\<open>let projects = []; let filtered = []; let currentPage = 1; let totalPages = 1;\<close>);
  the page's own fields are whatever the markup says. \<open>init\<close> is one such state.
\<close>

definition startup :: "view \<Rightarrow> bool" where
  "startup s =
     (projects s = [] \<and> filtered s = [] \<and> currentPage s = 1 \<and> totalPages s = 1)"

definition init :: view where
  "init = \<lparr>projects = [], filtered = [], currentPage = 1, totalPages = 1, grid = Markup,
            gridLabel = [], paginationHidden = False, prevDisabled = False,
            nextDisabled = False, pageInfo = [], focused = None\<rparr>"

subsection \<open>render\<close>

text \<open>
  \<^verbatim>\<open>
  function render() {
    projectsGrid.innerHTML = '';
    if (!filtered.length) {
      projectsGrid.innerHTML = `<div class="empty-state">...No projects found...`;
      if (pagination) pagination.hidden = true;
      return;
    }
    totalPages = Math.max(1, Math.ceil(filtered.length / PER_PAGE));
    currentPage = Math.min(currentPage, totalPages);
    const start = (currentPage - 1) * PER_PAGE;
    const pageItems = filtered.slice(start, start + PER_PAGE);
    ... one card per item of pageItems ...
    if (pagination) {
      pagination.hidden = totalPages <= 1;
      prevBtn.disabled = currentPage === 1;
      nextBtn.disabled = currentPage === totalPages;
      if (pageInfo) pageInfo.textContent = `Page ${currentPage} of ${totalPages}`;
    }
    projectsGrid.setAttribute('aria-label',
      `${filtered.length} projects. Showing ${pageItems.length} on this page.`);
  }
  \<close>
  The early return on an empty \<^verbatim>\<open>filtered\<close> comes before \<^verbatim>\<open>totalPages\<close> and
  \<^verbatim>\<open>currentPage\<close> are assigned.
\<close>

definition render :: "view \<Rightarrow> view" where
  "render s =
     (if filtered s = [] then s\<lparr>grid := EmptyState, paginationHidden := True\<rparr>
      else
        let tp = max 1 \<lceil>real (length (filtered s)) / real PER_PAGE\<rceil>;
            cp = min (currentPage s) tp;
            start = (cp - 1) * int PER_PAGE;
            pageItems = slice (filtered s) start (start + int PER_PAGE)
        in s\<lparr>totalPages := tp,
              currentPage := cp,
              grid := Cards pageItems,
              paginationHidden := (tp \<le> 1),
              prevDisabled := (cp = 1),
              nextDisabled := (cp = tp),
              pageInfo := ''Page '' @ showInt cp @ '' of '' @ showInt tp,
              gridLabel := showNat (length (filtered s)) @ '' projects. Showing ''
                             @ showNat (length pageItems) @ '' on this page.''\<rparr>)"

subsection \<open>applyFilters\<close>

text \<open>
  The callback of \<^verbatim>\<open>projects.filter\<close>, in the order the script evaluates it:
  \<^verbatim>\<open>
  let okTech = tech === 'all'
    || (Array.isArray(p.tags) ? p.tags.includes(tech) : (p.tags === tech))
    || (Array.isArray(p.tech) && p.tech.map(t=>t.toLowerCase()).includes(tech));
  if (!okTech) return false;
  if (!query) return true;
  const hay = `${p.title} ${p.description || ''} ${(p.tech||'').toString()} ${(p.tags||'').toString()}`.toLowerCase();
  return hay.includes(query);
  \<close>
  \<^verbatim>\<open>t.toLowerCase()\<close> throws on an element that is not a string; the whole \<^verbatim>\<open>map\<close> runs
  before \<^verbatim>\<open>includes\<close>. \<open>tagsOk\<close> is the second disjunct of \<^verbatim>\<open>okTech\<close> and \<open>techOk\<close>
  the third; \<open>hay\<close> is the constant of that name, \<open>textOk\<close> the last three lines
  (the test on \<^verbatim>\<open>query\<close>), and \<open>keep\<close> the whole callback.
\<close>

fun lowerOf :: "jsval \<Rightarrow> error + string" where
  "lowerOf (JStr s) = Inr (toLowerCase s)"
| "lowerOf _ = Inl TypeError"

definition tagsOk :: "string \<Rightarrow> jsval \<Rightarrow> bool" where
  "tagsOk tech tags = (case tags of JArr xs \<Rightarrow> JStr tech \<in> set xs | _ \<Rightarrow> tags = JStr tech)"

definition techOk :: "string \<Rightarrow> jsval \<Rightarrow> error + bool" where
  "techOk tech t =
     (case t of
        JArr ys \<Rightarrow> (case mapE lowerOf ys of Inl e \<Rightarrow> Inl e | Inr ls \<Rightarrow> Inr (tech \<in> set ls))
      | _ \<Rightarrow> Inr False)"

definition okTech :: "string \<Rightarrow> jsval \<Rightarrow> error + bool" where
  "okTech tech p =
     (if tech = ''all'' then Inr True
      else case getProp p ''tags'' of
             Inl e \<Rightarrow> Inl e
           | Inr tags \<Rightarrow>
               if tagsOk tech tags then Inr True
               else (case getProp p ''tech'' of Inl e \<Rightarrow> Inl e | Inr t \<Rightarrow> techOk tech t))"

text \<open>\<open>orEmpty v\<close> is \<^verbatim>\<open>(v || '').toString()\<close>, and \<^verbatim>\<open>${v || ''}\<close> alike.\<close>

definition orEmpty :: "jsval \<Rightarrow> string" where
  "orEmpty v = (if truthy v then toStr v else [])"

definition hay :: "jsval \<Rightarrow> error + string" where
  "hay p =
     (case getProp p ''title'' of Inl e \<Rightarrow> Inl e | Inr title \<Rightarrow>
      case getProp p ''description'' of Inl e \<Rightarrow> Inl e | Inr description \<Rightarrow>
      case getProp p ''tech'' of Inl e \<Rightarrow> Inl e | Inr tech \<Rightarrow>
      case getProp p ''tags'' of Inl e \<Rightarrow> Inl e | Inr tags \<Rightarrow>
        Inr (toLowerCase (toStr title @ '' '' @ orEmpty description @ '' ''
                            @ orEmpty tech @ '' '' @ orEmpty tags)))"

definition textOk :: "string \<Rightarrow> jsval \<Rightarrow> error + bool" where
  "textOk query p =
     (if query = [] then Inr True
      else case hay p of Inl e \<Rightarrow> Inl e | Inr h \<Rightarrow> Inr (includesStr h query))"

definition keep :: "string \<Rightarrow> string \<Rightarrow> jsval \<Rightarrow> error + bool" where
  "keep tech query p =
     (case okTech tech p of
        Inl e \<Rightarrow> Inl e
      | Inr b \<Rightarrow> if \<not> b then Inr False else textOk query p)"

text \<open>
  \<^verbatim>\<open>
  function applyFilters() {
    const tech = filterSelect ? filterSelect.value : 'all';
    const query = searchInput ? searchInput.value.trim().toLowerCase() : '';
    filtered = projects.filter(p => { ... });
    currentPage = 1;
    render();
  }
  \<close>
  \<open>selected\<close> is the value of the filter select and \<open>typed\<close> the value of the search
  input when the function runs. An exception in the callback leaves the function
  before \<^verbatim>\<open>filtered\<close> is assigned.
\<close>

definition applyFilters :: "string \<Rightarrow> string \<Rightarrow> view \<Rightarrow> error + view" where
  "applyFilters selected typed s =
     (let tech = selected;
          query = toLowerCase (trim typed)
      in case filterE (keep tech query) (projects s) of
           Inl e \<Rightarrow> Inl e
         | Inr fs \<Rightarrow> Inr (render (s\<lparr>filtered := fs, currentPage := 1\<rparr>)))"

subsection \<open>load\<close>

text \<open>
  The outcome of \<^verbatim>\<open>fetch\<close>: a rejection, or a response with its status and its body
  as \<^verbatim>\<open>resp.json()\<close> parses it (\<open>None\<close> when the body is not JSON).
  \<^verbatim>\<open>resp.ok\<close> holds for the statuses 200 to 299.
\<close>

datatype fetch_result = NetworkError | Response int "jsval option"

definition ok :: "int \<Rightarrow> bool" where
  "ok status = (200 \<le> status \<and> status \<le> 299)"

text \<open>
  The callback of \<^verbatim>\<open>data.map\<close>: \<^verbatim>\<open>(p, i) => ({ id: p.id || `p${i+1}`, ...p })\<close>.
  The spread comes after \<^verbatim>\<open>id\<close>, so the pairs of \<^verbatim>\<open>p\<close> are written over the
  object \<^verbatim>\<open>{ id: ... }\<close>: that is \<open>AList.merge\<close>, whose second argument wins.
\<close>

definition normalize :: "jsval \<Rightarrow> nat \<Rightarrow> error + jsval" where
  "normalize p i =
     (case getProp p ''id'' of
        Inl e \<Rightarrow> Inl e
      | Inr pid \<Rightarrow>
          Inr (JObj (AList.merge
                 [(''id'', if truthy pid then pid else JStr (''p'' @ showNat (i + 1)))]
                 (ownProps p))))"

text \<open>
  \<^verbatim>\<open>
  async function load() {
    try {
      const resp = await fetch('data/projects.json', { cache: 'no-cache' });
      if (!resp.ok) throw new Error(`Failed to fetch projects.json (${resp.status})`);
      const data = await resp.json();
      if (!Array.isArray(data)) throw new Error('projects.json must be an array of project objects');
      projects = data.map((p, i) => ({ id: p.id || `p${i+1}`, ...p }));
      filtered = projects.slice();
      render();
    } catch (err) {
      console.error('Error loading projects:', err);
      projectsGrid.innerHTML = `<div class="empty-state"><p>Unable to load projects. ...`;
      if (pagination) pagination.hidden = true;
    }
  }
  \<close>
  \<open>load_try\<close> is the \<^verbatim>\<open>try\<close> block and \<open>load\<close> the whole function.
\<close>

definition load_try :: "fetch_result \<Rightarrow> view \<Rightarrow> error + view" where
  "load_try r s =
     (case r of
        NetworkError \<Rightarrow> Inl FetchRejected
      | Response status body \<Rightarrow>
          if \<not> ok status then Inl (HttpError status)
          else (case body of
                  None \<Rightarrow> Inl SyntaxError
                | Some data \<Rightarrow>
                    (case data of
                       JArr ds \<Rightarrow>
                         (case mapIdx normalize 0 ds of
                            Inl e \<Rightarrow> Inl e
                          | Inr ps \<Rightarrow> Inr (render (s\<lparr>projects := ps, filtered := ps\<rparr>)))
                     | _ \<Rightarrow> Inl MalformedCatalog)))"

definition load :: "fetch_result \<Rightarrow> view \<Rightarrow> view" where
  "load r s =
     (case load_try r s of
        Inr s' \<Rightarrow> s'
      | Inl e \<Rightarrow> s\<lparr>grid := UnableToLoad, paginationHidden := True\<rparr>)"

subsection \<open>Event handlers\<close>

text \<open>
  The listeners on the filter select (\<^verbatim>\<open>change\<close>) and on the search input (the
  debounced \<^verbatim>\<open>input\<close> and \<^verbatim>\<open>keyup\<close> with Enter) all call \<^verbatim>\<open>applyFilters()\<close>; an
  exception it throws ends the handler and the variables stay as they were.
  \<^verbatim>\<open>
  prevBtn.addEventListener('click', () => {
    if (currentPage > 1) { currentPage--; render(); prevBtn.focus(); } });
  nextBtn.addEventListener('click', () => {
    if (currentPage < totalPages) { currentPage++; render(); nextBtn.focus(); } });
  \<close>
\<close>

definition onFilter :: "string \<Rightarrow> string \<Rightarrow> view \<Rightarrow> view" where
  "onFilter selected typed s =
     (case applyFilters selected typed s of Inl e \<Rightarrow> s | Inr s' \<Rightarrow> s')"

definition prevClick :: "view \<Rightarrow> view" where
  "prevClick s =
     (if currentPage s > 1
      then (render (s\<lparr>currentPage := currentPage s - 1\<rparr>))\<lparr>focused := Some PrevBtn\<rparr>
      else s)"

definition nextClick :: "view \<Rightarrow> view" where
  "nextClick s =
     (if currentPage s < totalPages s
      then (render (s\<lparr>currentPage := currentPage s + 1\<rparr>))\<lparr>focused := Some NextBtn\<rparr>
      else s)"

datatype event =
    Loaded fetch_result
  | FilterChanged string string
  | PrevClicked
  | NextClicked

fun step :: "view \<Rightarrow> event \<Rightarrow> view" where
  "step s (Loaded r) = load r s"
| "step s (FilterChanged selected typed) = onFilter selected typed s"
| "step s PrevClicked = prevClick s"
| "step s NextClicked = nextClick s"

definition run :: "event list \<Rightarrow> view \<Rightarrow> view" where
  "run es s = foldl step s es"

fun isLoaded :: "event \<Rightarrow> bool" where
  "isLoaded (Loaded r) = True"
| "isLoaded _ = False"

subsection \<open>The data model's typing of tech\<close>

text \<open>
  The data source gives \<^verbatim>\<open>tech\<close> as a string or a sequence of strings, or leaves it
  out. \<open>stringTech p\<close> says that much of a record: it is an object, and when its
  \<^verbatim>\<open>tech\<close> is an array the elements are strings. On such records the callback of
  \<^verbatim>\<open>applyFilters\<close> does not throw.
\<close>

fun isStr :: "jsval \<Rightarrow> bool" where
  "isStr (JStr s) = True"
| "isStr _ = False"

fun stringTech :: "jsval \<Rightarrow> bool" where
  "stringTech (JObj fs) = (case lookup fs ''tech'' of JArr ys \<Rightarrow> list_all isStr ys | _ \<Rightarrow> True)"
| "stringTech _ = False"

subsection \<open>Ids given by the data source\<close>

text \<open>
  \<open>sourceId d\<close> is the \<^verbatim>\<open>id\<close> that the spread of \<open>d\<close> writes, if any.
  \<open>idsApart ds\<close>: the ids that the elements of \<open>ds\<close> bring along are pairwise
  different, and none of them is a \<^verbatim>\<open>p1\<close>, \<^verbatim>\<open>p2\<close>, ... up to the length of \<open>ds\<close>,
  the ids that \<^verbatim>\<open>load\<close> makes up.
\<close>

definition sourceId :: "jsval \<Rightarrow> jsval option" where
  "sourceId d = map_of (ownProps d) ''id''"

definition idsApart :: "jsval list \<Rightarrow> bool" where
  "idsApart ds =
     (distinct (List.map_filter sourceId ds)
      \<and> list_all (\<lambda>d. case sourceId d of
                         None \<Rightarrow> True
                       | Some x \<Rightarrow> x \<notin> set (map (\<lambda>k. JStr (''p'' @ showNat k)) [1..<Suc (length ds)]))
           ds)"

subsection \<open>The wording of two claims\<close>





subsection \<open>Example runs\<close>

text \<open>
  A catalog of seven records without fields, \<^verbatim>\<open>[{}, {}, {}, {}, {}, {}, {}]\<close>, loaded
  with status 200 into the starting state; then the filter select set to a tag that
  no record carries. And a catalog of three records, the first with an id, all with
  a title, with \<^verbatim>\<open>tech\<close> and \<^verbatim>\<open>tags\<close> given as arrays or as single strings.
\<close>

definition sevenLoaded :: view where
  "sevenLoaded = load (Response 200 (Some (JArr (replicate 7 (JObj []))))) init"

definition noneSelected :: view where
  "noneSelected = onFilter ''none'' [] sevenLoaded"

definition shopApp :: "(string \<times> jsval) list" where
  "shopApp = [(''id'', JStr ''a''), (''title'', JStr ''Shop App''),
              (''tech'', JArr [JStr ''React'', JStr ''Node'']), (''tags'', JArr [JStr ''web''])]"

definition cliTool :: "(string \<times> jsval) list" where
  "cliTool = [(''title'', JStr ''CLI tool''), (''description'', JStr ''react to events''),
              (''tech'', JStr ''Go'')]"

definition blog :: "(string \<times> jsval) list" where
  "blog = [(''title'', JStr ''Blog''), (''tech'', JArr [JStr ''react'']), (''tags'', JStr ''web'')]"

definition demo :: view where
  "demo = load (Response 200 (Some (JArr [JObj shopApp, JObj cliTool, JObj blog]))) init"

section \<open>Auxiliary facts\<close>

subsection \<open>Decimal numerals, substrings, and callbacks that may throw\<close>

declare showNat.simps [simp del]

lemma digit_inj: "a < 10 \<Longrightarrow> b < 10 \<Longrightarrow> digit a = digit b \<Longrightarrow> a = b"
proof -
  assume a: "a < 10" and b: "b < 10" and e: "digit a = digit b"
  from e have "(of_char (char_of (48 + a)) :: nat) = of_char (char_of (48 + b))"
    by (simp add: digit_def)
  with a b show "a = b" by (simp add: of_char_of)
qed

lemma showNat_nonempty: "showNat n \<noteq> []"
  by (subst showNat.simps) simp

lemma showNat_length_one: "length (showNat n) = 1 \<longleftrightarrow> n < 10"
proof (cases "n < 10")
  case True
  then show ?thesis by (subst showNat.simps) simp
next
  case False
  have "showNat (n div 10) \<noteq> []" by (rule showNat_nonempty)
  then have "length (showNat (n div 10)) \<noteq> 0" by simp
  with False show ?thesis by (subst showNat.simps) simp
qed

lemma showNat_inj: "showNat n = showNat m \<Longrightarrow> n = m"
proof (induction n arbitrary: m rule: showNat.induct)
  case (1 n)
  show ?case
  proof (cases "n < 10")
    case True
    from "1.prems" have "length (showNat m) = 1"
      using showNat_length_one [of n] True by simp
    then have m: "m < 10" using showNat_length_one [of m] by simp
    from "1.prems" True m have "digit n = digit m"
      by (simp add: showNat.simps [of n] showNat.simps [of m])
    with True m show ?thesis by (rule digit_inj)
  next
    case False
    have "length (showNat m) \<noteq> 1"
      using showNat_length_one [of n] False "1.prems" by simp
    then have m: "\<not> m < 10" using showNat_length_one [of m] by simp
    from "1.prems" False m
    have e: "showNat (n div 10) @ [digit (n mod 10)] = showNat (m div 10) @ [digit (m mod 10)]"
      by (simp add: showNat.simps [of n] showNat.simps [of m])
    then have "showNat (n div 10) = showNat (m div 10)" and d: "digit (n mod 10) = digit (m mod 10)"
      by simp_all
    with "1.IH" False have q: "n div 10 = m div 10" by blast
    have "n mod 10 = m mod 10" by (rule digit_inj) (simp_all add: d)
    with q show ?thesis by (metis div_mult_mod_eq)
  qed
qed


lemma filterE_Inr:
  "filterE f xs = Inr ys \<Longrightarrow> ys = filter (\<lambda>x. f x = Inr True) xs"
  by (induction xs arbitrary: ys) (auto split: sum.splits if_splits)

lemma filterE_total:
  "\<forall>x\<in>set xs. \<exists>b. f x = Inr b \<Longrightarrow> \<exists>ys. filterE f xs = Inr ys"
  by (induction xs) (auto split: sum.splits)

lemma mapIdx_Inr:
  "mapIdx f i xs = Inr ys \<Longrightarrow>
     length ys = length xs \<and> (\<forall>k<length xs. f (xs ! k) (i + k) = Inr (ys ! k))"
proof (induction xs arbitrary: i ys)
  case Nil
  then show ?case by simp
next
  case (Cons x xs)
  from Cons.prems obtain y zs where y: "f x i = Inr y" and zs: "mapIdx f (Suc i) xs = Inr zs"
    and ys: "ys = y # zs"
    by (auto split: sum.splits)
  from Cons.IH [OF zs] have len: "length zs = length xs"
    and nth: "\<forall>k<length xs. f (xs ! k) (Suc i + k) = Inr (zs ! k)" by simp_all
  have "f ((x # xs) ! k) (i + k) = Inr (ys ! k)" if "k < length (x # xs)" for k
  proof (cases k)
    case 0
    with y ys show ?thesis by simp
  next
    case (Suc m)
    with that nth ys show ?thesis by simp
  qed
  with len ys show ?case by simp
qed

lemma mapIdx_total:
  "\<forall>x\<in>set xs. \<forall>k. \<exists>y. f x k = Inr y \<Longrightarrow> \<exists>ys. mapIdx f i xs = Inr ys"
proof (induction xs arbitrary: i)
  case Nil
  then show ?case by simp
next
  case (Cons x xs)
  from Cons.prems have "\<forall>k. \<exists>y. f x k = Inr y" by simp
  then obtain y where y: "f x i = Inr y" by blast
  from Cons.prems have "\<forall>x\<in>set xs. \<forall>k. \<exists>y. f x k = Inr y" by simp
  from Cons.IH [OF this] obtain ys where "mapIdx f (Suc i) xs = Inr ys" by blast
  with y show ?case by simp
qed


subsection \<open>render\<close>

lemma render_empty:
  "filtered s = [] \<Longrightarrow> render s = s\<lparr>grid := EmptyState, paginationHidden := True\<rparr>"
  by (simp add: render_def)

lemma render_projects: "projects (render s) = projects s"
  by (simp add: render_def Let_def)

lemma render_filtered: "filtered (render s) = filtered s"
  by (simp add: render_def Let_def)

lemma render_totalPages:
  "filtered s \<noteq> [] \<Longrightarrow>
   totalPages (render s) = max 1 \<lceil>real (length (filtered s)) / real PER_PAGE\<rceil>"
  by (simp add: render_def Let_def)

lemma render_currentPage:
  "filtered s \<noteq> [] \<Longrightarrow> currentPage (render s) = min (currentPage s) (totalPages (render s))"
  by (simp add: render_def Let_def)

lemma slice_first: "slice xs 0 (int n) = take n xs"
  by (simp add: slice_def Let_def min_def)

lemma render_page_one:
  "currentPage s = 1 \<Longrightarrow>
     currentPage (render s) = 1 \<and>
     grid (render s) = (if filtered s = [] then EmptyState else Cards (take PER_PAGE (filtered s)))"
  by (simp add: render_def Let_def slice_first)

lemma render_bounds:
  assumes "1 \<le> currentPage s" "filtered s = [] \<longrightarrow> currentPage s \<le> totalPages s"
  shows "1 \<le> currentPage (render s) \<and> currentPage (render s) \<le> totalPages (render s)
         \<and> (filtered (render s) \<noteq> [] \<longrightarrow>
              totalPages (render s) = max 1 \<lceil>real (length (filtered (render s))) / real PER_PAGE\<rceil>)"
proof (cases "filtered s = []")
  case True
  with assms show ?thesis by (simp add: render_empty)
next
  case False
  with assms(1) show ?thesis
    by (simp add: render_totalPages render_currentPage render_filtered)
qed

subsection \<open>applyFilters\<close>

lemma isStr_list: "list_all isStr ys \<Longrightarrow> \<exists>ss. ys = map JStr ss"
proof (induction ys)
  case Nil
  then show ?case by simp
next
  case (Cons y ys)
  then obtain ss where "ys = map JStr ss" by auto
  moreover from Cons.prems obtain s where "y = JStr s" by (cases y) simp_all
  ultimately have "y # ys = map JStr (s # ss)" by simp
  then show ?case by (rule exI)
qed

lemma mapE_lowerOf: "mapE lowerOf (map JStr ss) = Inr (map toLowerCase ss)"
  by (induction ss) simp_all

lemma techOk_strings:
  "techOk sel (JArr (map JStr ss)) = Inr (\<exists>t \<in> set ss. toLowerCase t = sel)"
  by (auto simp: techOk_def mapE_lowerOf)

lemma techOk_not_array: "\<not> isArray t \<Longrightarrow> techOk sel t = Inr False"
  by (cases t) (simp_all add: techOk_def)

lemma okTech_total: "stringTech p \<Longrightarrow> \<exists>b. okTech sel p = Inr b"
proof (cases p)
  case (JObj fs)
  assume st: "stringTech p"
  show ?thesis
  proof (cases "isArray (lookup fs ''tech'')")
    case True
    then obtain ys where ys: "lookup fs ''tech'' = JArr ys" by (cases "lookup fs ''tech''") simp_all
    with st JObj have "list_all isStr ys" by simp
    then obtain ss where "ys = map JStr ss" using isStr_list by blast
    with ys JObj show ?thesis by (auto simp: okTech_def techOk_strings)
  next
    case False
    with JObj show ?thesis by (auto simp: okTech_def techOk_not_array)
  qed
qed simp_all

lemma hay_object:
  "hay (JObj fs) =
     Inr (toLowerCase (toStr (lookup fs ''title'') @ '' '' @ orEmpty (lookup fs ''description'')
            @ '' '' @ orEmpty (lookup fs ''tech'') @ '' '' @ orEmpty (lookup fs ''tags'')))"
  by (simp add: hay_def)

lemma textOk_total: "stringTech p \<Longrightarrow> \<exists>b. textOk query p = Inr b"
  by (cases p) (auto simp: textOk_def hay_object)

lemma keep_total: "stringTech p \<Longrightarrow> \<exists>b. keep sel query p = Inr b"
proof -
  assume st: "stringTech p"
  then obtain b where "okTech sel p = Inr b" using okTech_total by blast
  moreover from st obtain c where "textOk query p = Inr c" using textOk_total by blast
  ultimately show ?thesis by (auto simp: keep_def)
qed

lemma applyFilters_returns:
  "list_all stringTech (projects s) \<Longrightarrow> \<exists>s'. applyFilters sel typed s = Inr s'"
proof -
  assume "list_all stringTech (projects s)"
  then have "\<forall>p\<in>set (projects s). \<exists>b. keep sel (toLowerCase (trim typed)) p = Inr b"
    by (simp add: list_all_iff keep_total)
  then obtain fs where "filterE (keep sel (toLowerCase (trim typed))) (projects s) = Inr fs"
    using filterE_total by blast
  then show ?thesis by (simp add: applyFilters_def)
qed

lemma applyFilters_Inr:
  "applyFilters sel typed s = Inr s' \<Longrightarrow>
   s' = render (s\<lparr>filtered := filter (\<lambda>p. keep sel (toLowerCase (trim typed)) p = Inr True) (projects s),
                  currentPage := 1\<rparr>)"
  by (auto simp: applyFilters_def Let_def split: sum.splits dest: filterE_Inr)




subsection \<open>load\<close>

lemma lookup_merge_id:
  "lookup (AList.merge [(''id'', v)] ps) ''id'' = (case map_of ps ''id'' of None \<Rightarrow> v | Some x \<Rightarrow> x)"
  by (simp add: lookup_def merge_conv' map_add_def split: option.splits)

lemma getProp_id_undefined:
  "d \<noteq> JNull \<Longrightarrow> d \<noteq> JUndefined \<Longrightarrow> sourceId d = None \<Longrightarrow> getProp d ''id'' = Inr JUndefined"
  by (cases d) (simp_all add: sourceId_def lookup_def)

lemma normalize_value:
  assumes "d \<noteq> JNull" "d \<noteq> JUndefined"
  shows "\<exists>p. normalize d i = Inr p \<and>
             getProp p ''id'' =
               Inr (case sourceId d of None \<Rightarrow> JStr (''p'' @ showNat (i + 1)) | Some x \<Rightarrow> x)"
proof (cases "sourceId d")
  case None
  with assms have "getProp d ''id'' = Inr JUndefined" by (simp add: getProp_id_undefined)
  with None show ?thesis
    by (simp add: normalize_def lookup_merge_id sourceId_def)
next
  case (Some x)
  from assms obtain pid where "getProp d ''id'' = Inr pid" by (cases d) simp_all
  with Some show ?thesis
    by (simp add: normalize_def lookup_merge_id sourceId_def)
qed

lemma normalize_null: "d = JNull \<or> d = JUndefined \<Longrightarrow> normalize d i = Inl TypeError"
  by (auto simp: normalize_def)


lemma mapIdx_normalize_total:
  "JNull \<notin> set ds \<Longrightarrow> JUndefined \<notin> set ds \<Longrightarrow> \<exists>ps. mapIdx normalize i ds = Inr ps"
proof -
  assume a: "JNull \<notin> set ds" "JUndefined \<notin> set ds"
  have "\<forall>x\<in>set ds. \<forall>k. \<exists>y. normalize x k = Inr y"
  proof (intro ballI allI)
    fix x k assume "x \<in> set ds"
    with a have "x \<noteq> JNull" "x \<noteq> JUndefined" by auto
    from normalize_value [OF this] show "\<exists>y. normalize x k = Inr y" by blast
  qed
  then show ?thesis by (rule mapIdx_total)
qed


lemma mapIdx_normalize_id:
  assumes "mapIdx normalize i ds = Inr ps" "k < length ds"
  shows "getProp (ps ! k) ''id'' =
           Inr (case sourceId (ds ! k) of None \<Rightarrow> JStr (''p'' @ showNat (i + k + 1)) | Some x \<Rightarrow> x)"
proof -
  from mapIdx_Inr [OF assms(1)] assms(2) have n: "normalize (ds ! k) (i + k) = Inr (ps ! k)"
    by simp
  then have "ds ! k \<noteq> JNull" "ds ! k \<noteq> JUndefined" by (auto simp: normalize_null)
  from normalize_value [OF this, of "i + k"] n show ?thesis by auto
qed

lemma load_try_array:
  "load_try (Response st (Some (JArr ds))) s = Inr s' \<longleftrightarrow>
     ok st \<and> (\<exists>ps. mapIdx normalize 0 ds = Inr ps \<and> s' = render (s\<lparr>projects := ps, filtered := ps\<rparr>))"
  by (auto simp: load_try_def split: sum.splits)

lemma sourceId_object: "sourceId (JObj fs) = map_of fs ''id''"
  by (simp add: sourceId_def)

lemma third_id: "''p'' @ showNat (2 + 1) = ''p3''"
  by code_simp

lemma map_filter_apart:
  "distinct (List.map_filter g xs) \<Longrightarrow> a < b \<Longrightarrow> b < length xs \<Longrightarrow>
     g (xs ! a) = Some x \<Longrightarrow> g (xs ! b) = Some y \<Longrightarrow> x \<noteq> y"
proof (induction xs arbitrary: a b)
  case Nil
  then show ?case by simp
next
  case (Cons z zs)
  from Cons.prems(2) obtain b' where b: "b = Suc b'" by (cases b) simp_all
  with Cons.prems have b': "b' < length zs" and gy: "g (zs ! b') = Some y" by simp_all
  show ?case
  proof (cases a)
    case 0
    with Cons.prems have gz: "g z = Some x" by simp
    with Cons.prems(1) have "x \<notin> set (List.map_filter g zs)"
      by (simp add: List.map_filter_simps)
    moreover from b' gy have "y \<in> set (List.map_filter g zs)"
      by (force simp: List.map_filter_def image_iff)
    ultimately show ?thesis by auto
  next
    case (Suc a')
    with Cons.prems b have "a' < b'" "g (zs ! a') = Some x" by simp_all
    moreover from Cons.prems(1) have "distinct (List.map_filter g zs)"
      by (cases "g z") (simp_all add: List.map_filter_simps)
    ultimately show ?thesis using Cons.IH b' gy by blast
  qed
qed

lemma synth_inj: "JStr (''p'' @ showNat a) = JStr (''p'' @ showNat b) \<Longrightarrow> a = b"
  by (simp add: showNat_inj)

lemma loaded_ids_distinct:
  assumes m: "mapIdx normalize 0 ds = Inr ps" and apart: "idsApart ds"
  shows "distinct (map (\<lambda>p. getProp p ''id'') ps)"
proof -
  from mapIdx_Inr [OF m] have len: "length ps = length ds" by simp
  from apart have d: "distinct (List.map_filter sourceId ds)"
    by (simp add: idsApart_def)
  have s: "x \<noteq> JStr (''p'' @ showNat (j + 1))"
    if k: "k < length ds" and x: "sourceId (ds ! k) = Some x" and j: "j < length ds" for k x j
  proof -
    from apart k x
    have "x \<notin> set (map (\<lambda>k. JStr (''p'' @ showNat k)) [1..<Suc (length ds)])"
      by (auto simp: idsApart_def list_all_length split: option.splits)
    moreover from j have "j + 1 \<in> set [1..<Suc (length ds)]" by auto
    then have "JStr (''p'' @ showNat (j + 1))
                 \<in> (\<lambda>k. JStr (''p'' @ showNat k)) ` set [1..<Suc (length ds)]"
      by (rule imageI)
    ultimately show ?thesis by auto
  qed
  have id: "getProp (ps ! k) ''id'' =
              Inr (case sourceId (ds ! k) of None \<Rightarrow> JStr (''p'' @ showNat (k + 1)) | Some x \<Rightarrow> x)"
    if "k < length ds" for k
    using mapIdx_normalize_id [OF m that] by (simp cong del: option.case_cong_weak)
  have "getProp (ps ! a) ''id'' \<noteq> getProp (ps ! b) ''id''" if ab: "a < b" "b < length ds" for a b
  proof (cases "sourceId (ds ! a)")
    case None
    note na = None
    show ?thesis
    proof (cases "sourceId (ds ! b)")
      case None
      from ab have "a + 1 \<noteq> b + 1" by simp
      then have "JStr (''p'' @ showNat (a + 1)) \<noteq> JStr (''p'' @ showNat (b + 1))"
        using synth_inj by blast
      with na None ab show ?thesis by (simp add: id)
    next
      case (Some y)
      from s [OF ab(2) Some, of a] ab have "y \<noteq> JStr (''p'' @ showNat (a + 1))" by simp
      with na Some ab show ?thesis by (auto simp: id)
    qed
  next
    case (Some x)
    note sa = Some
    show ?thesis
    proof (cases "sourceId (ds ! b)")
      case None
      from ab have "a < length ds" by simp
      from s [OF this sa ab(2)] have "x \<noteq> JStr (''p'' @ showNat (b + 1))" .
      with sa None ab show ?thesis by (simp add: id)
    next
      case (Some y)
      from map_filter_apart [OF d ab sa Some] sa Some ab show ?thesis by (simp add: id)
    qed
  qed
  then have "\<forall>a<length ps. \<forall>b<length ps. a \<noteq> b \<longrightarrow>
               map (\<lambda>p. getProp p ''id'') ps ! a \<noteq> map (\<lambda>p. getProp p ''id'') ps ! b"
    by (metis len linorder_neqE_nat nth_map)
  then show ?thesis by (simp add: distinct_conv_nth)
qed

subsection \<open>Events keep the catalog\<close>

lemma onFilter_projects: "projects (onFilter sel typed s) = projects s"
  by (auto simp: onFilter_def render_projects split: sum.splits dest!: applyFilters_Inr)

lemma prevClick_projects: "projects (prevClick s) = projects s"
  by (simp add: prevClick_def render_projects)

lemma nextClick_projects: "projects (nextClick s) = projects s"
  by (simp add: nextClick_def render_projects)

lemma onFilter_filtered:
  "set (filtered s) \<subseteq> set (projects s) \<Longrightarrow> set (filtered (onFilter sel typed s)) \<subseteq> set (projects s)"
  by (auto simp: onFilter_def render_filtered split: sum.splits dest!: applyFilters_Inr)

lemma step_keeps_catalog:
  assumes "\<not> isLoaded e" "set (filtered s) \<subseteq> set (projects s)"
  shows "projects (step s e) = projects s \<and> set (filtered (step s e)) \<subseteq> set (projects s)"
proof (cases e)
  case (Loaded r)
  with assms show ?thesis by simp
next
  case (FilterChanged sel typed)
  with assms show ?thesis by (simp add: onFilter_projects onFilter_filtered)
next
  case PrevClicked
  with assms show ?thesis by (simp add: prevClick_def render_projects render_filtered)
next
  case NextClicked
  with assms show ?thesis by (simp add: nextClick_def render_projects render_filtered)
qed

lemma run_keeps_catalog:
  "\<forall>e\<in>set es. \<not> isLoaded e \<Longrightarrow> set (filtered s) \<subseteq> set (projects s) \<Longrightarrow>
     projects (run es s) = projects s \<and> set (filtered (run es s)) \<subseteq> set (projects s)"
proof (induction es arbitrary: s)
  case Nil
  then show ?case by (simp add: run_def)
next
  case (Cons e es)
  from Cons.prems have e: "\<not> isLoaded e" and es: "\<forall>e\<in>set es. \<not> isLoaded e" by simp_all
  from step_keeps_catalog [OF e Cons.prems(2)]
  have p: "projects (step s e) = projects s" and f: "set (filtered (step s e)) \<subseteq> set (projects s)"
    by simp_all
  from f p have "set (filtered (step s e)) \<subseteq> set (projects (step s e))" by simp
  from Cons.IH [OF es this] p show ?case by (simp add: run_def)
qed

subsection \<open>Page bounds along a run\<close>

text \<open>
  From the starting state, whatever the events, the current page stays between 1 and
  the stored \<open>totalPages\<close>: every page handed to \<open>render\<close> is at least 1.
\<close>

lemma step_bounds:
  assumes "1 \<le> currentPage s" "currentPage s \<le> totalPages s"
  shows "1 \<le> currentPage (step s e) \<and> currentPage (step s e) \<le> totalPages (step s e)"
proof (cases e)
  case (Loaded r)
  show ?thesis
  proof (cases "load_try r s")
    case (Inl err)
    with Loaded assms show ?thesis by (simp add: load_def)
  next
    case (Inr s')
    then obtain ps where "s' = render (s\<lparr>projects := ps, filtered := ps\<rparr>)"
      by (auto simp: load_try_def split: fetch_result.splits if_splits option.splits jsval.splits sum.splits)
    moreover have "1 \<le> currentPage (render (s\<lparr>projects := ps, filtered := ps\<rparr>))
        \<and> currentPage (render (s\<lparr>projects := ps, filtered := ps\<rparr>))
            \<le> totalPages (render (s\<lparr>projects := ps, filtered := ps\<rparr>))"
      using render_bounds [of "s\<lparr>projects := ps, filtered := ps\<rparr>"] assms by simp
    ultimately show ?thesis using Loaded Inr by (simp add: load_def)
  qed
next
  case (FilterChanged sel typed)
  show ?thesis
  proof (cases "applyFilters sel typed s")
    case (Inl err)
    with FilterChanged assms show ?thesis by (simp add: onFilter_def)
  next
    case (Inr s')
    from applyFilters_Inr [OF this] obtain fs where s': "s' = render (s\<lparr>filtered := fs, currentPage := 1\<rparr>)"
      by blast
    have "1 \<le> currentPage (render (s\<lparr>filtered := fs, currentPage := 1\<rparr>))
        \<and> currentPage (render (s\<lparr>filtered := fs, currentPage := 1\<rparr>))
            \<le> totalPages (render (s\<lparr>filtered := fs, currentPage := 1\<rparr>))"
      using render_bounds [of "s\<lparr>filtered := fs, currentPage := 1\<rparr>"] assms by simp
    with s' FilterChanged Inr show ?thesis by (simp add: onFilter_def)
  qed
next
  case PrevClicked
  show ?thesis
  proof (cases "1 < currentPage s")
    case True
    have "1 \<le> currentPage (render (s\<lparr>currentPage := currentPage s - 1\<rparr>))
        \<and> currentPage (render (s\<lparr>currentPage := currentPage s - 1\<rparr>))
            \<le> totalPages (render (s\<lparr>currentPage := currentPage s - 1\<rparr>))"
      using render_bounds [of "s\<lparr>currentPage := currentPage s - 1\<rparr>"] assms True by simp
    with True PrevClicked show ?thesis by (simp add: prevClick_def)
  next
    case False
    with PrevClicked assms show ?thesis by (simp add: prevClick_def)
  qed
next
  case NextClicked
  show ?thesis
  proof (cases "currentPage s < totalPages s")
    case True
    have "1 \<le> currentPage (render (s\<lparr>currentPage := currentPage s + 1\<rparr>))
        \<and> currentPage (render (s\<lparr>currentPage := currentPage s + 1\<rparr>))
            \<le> totalPages (render (s\<lparr>currentPage := currentPage s + 1\<rparr>))"
      using render_bounds [of "s\<lparr>currentPage := currentPage s + 1\<rparr>"] assms True by simp
    with True NextClicked show ?thesis by (simp add: nextClick_def)
  next
    case False
    with NextClicked assms show ?thesis by (simp add: nextClick_def)
  qed
qed

lemma run_bounds:
  "1 \<le> currentPage s \<Longrightarrow> currentPage s \<le> totalPages s \<Longrightarrow>
     1 \<le> currentPage (run es s) \<and> currentPage (run es s) \<le> totalPages (run es s)"
proof (induction es arbitrary: s)
  case Nil
  then show ?case by (simp add: run_def)
next
  case (Cons e es)
  from step_bounds [OF Cons.prems]
  have "1 \<le> currentPage (step s e)" "currentPage (step s e) \<le> totalPages (step s e)" by simp_all
  from Cons.IH [OF this] show ?case by (simp add: run_def)
qed

lemma startup_page_bounds:
  "startup s \<Longrightarrow> 1 \<le> currentPage (run es s) \<and> currentPage (run es s) \<le> totalPages (run es s)"
  by (rule run_bounds) (simp_all add: startup_def)

section \<open>The claims\<close>

text \<open>
  C1, as stated: for every filtered subset of size \<open>n\<close>, after \<open>render\<close> the stored
  \<open>totalPages\<close> is \<open>max 1 \<lceil>n / 6\<rceil>\<close> and the stored current page lies in
  \<open>[1, totalPages]\<close>. As the code has it: on a non-empty subset \<open>totalPages\<close> becomes
  \<open>max 1 \<lceil>n / 6\<rceil>\<close> and the current page the minimum of itself and
  \<open>totalPages\<close>, so a page above the last becomes the last and a page that was at
  least 1 ends in \<open>[1, totalPages]\<close> (\<open>render\<close> has no lower clamp); on an empty
  subset \<open>render\<close> returns before it assigns either variable, and both keep their
  earlier values.
\<close>

theorem render_totalPages_clamp:
  "(filtered s \<noteq> [] \<longrightarrow>
      totalPages (render s) = max 1 \<lceil>real (length (filtered s)) / real PER_PAGE\<rceil>
      \<and> currentPage (render s) = min (currentPage s) (totalPages (render s))
      \<and> (1 \<le> currentPage s \<longrightarrow>
           1 \<le> currentPage (render s) \<and> currentPage (render s) \<le> totalPages (render s)))
   \<and> (filtered s = [] \<longrightarrow>
        totalPages (render s) = totalPages s \<and> currentPage (render s) = currentPage s)"
proof (cases "filtered s = []")
  case True
  then show ?thesis by (simp add: render_empty)
next
  case False
  have tp: "1 \<le> totalPages (render s)"
    using False by (simp add: render_totalPages)
  have cp: "currentPage (render s) = min (currentPage s) (totalPages (render s))"
    using False by (rule render_currentPage)
  from tp cp have "1 \<le> currentPage s \<longrightarrow>
      1 \<le> currentPage (render s) \<and> currentPage (render s) \<le> totalPages (render s)"
    by simp
  with False cp show ?thesis by (simp add: render_totalPages)
qed

text \<open>
  Where C1 fails as stated: seven records give two pages; selecting a tag that matches
  nothing empties \<open>filtered\<close>, and \<open>render\<close> leaves \<open>totalPages\<close> at 2 where
  \<open>max 1 \<lceil>0 / 6\<rceil>\<close> is 1.
\<close>

theorem render_totalPages_counterexample:
  "filtered noneSelected = []
   \<and> totalPages (render noneSelected) = 2
   \<and> max 1 \<lceil>real (length (filtered (render noneSelected))) / real PER_PAGE\<rceil> = 1"
  by code_simp

theorem render_totalPages_clamp_witness:
  "filtered (sevenLoaded\<lparr>currentPage := 5\<rparr>) \<noteq> []
   \<and> 1 \<le> currentPage (sevenLoaded\<lparr>currentPage := 5\<rparr>)
   \<and> totalPages (render (sevenLoaded\<lparr>currentPage := 5\<rparr>)) = 2
   \<and> currentPage (render (sevenLoaded\<lparr>currentPage := 5\<rparr>)) = 2
   \<and> filtered noneSelected = []
   \<and> totalPages (render noneSelected) = totalPages noneSelected
   \<and> currentPage (render noneSelected) = currentPage noneSelected"
proof -
  have a: "filtered (sevenLoaded\<lparr>currentPage := 5\<rparr>) \<noteq> []" by code_simp
  have b: "1 \<le> currentPage (sevenLoaded\<lparr>currentPage := 5\<rparr>)" by code_simp
  have c: "filtered noneSelected = []" by code_simp
  have d: "max 1 \<lceil>real (length (filtered (sevenLoaded\<lparr>currentPage := 5\<rparr>))) / real PER_PAGE\<rceil> = 2"
    by code_simp
  have e: "currentPage (sevenLoaded\<lparr>currentPage := 5\<rparr>) = 5" by code_simp
  from a b c d e render_totalPages_clamp [of "sevenLoaded\<lparr>currentPage := 5\<rparr>"]
    render_totalPages_clamp [of noneSelected]
  show ?thesis by simp
qed




text \<open>
  C3, as stated: after a successful load the ids of the records are unique, and no
  later operation changes them. As the code has it: \<^verbatim>\<open>load\<close> keeps an id the source
  gives and makes up \<^verbatim>\<open>p\<close> and the position for a record without one, so the ids are
  unique when the ids of the source are pairwise different and none of them is one of
  the made-up ids (\<open>idsApart\<close>); events other than a load leave the catalog as it
  is, the filtered records are records of the catalog, and \<open>render\<close> leaves the
  catalog as it is.
\<close>

theorem catalog_ids:
  assumes "load_try (Response st (Some (JArr ds))) s = Inr s'"
  shows "(idsApart ds \<longrightarrow> distinct (map (\<lambda>p. getProp p ''id'') (projects s')))
         \<and> ((\<forall>e\<in>set es. \<not> isLoaded e) \<longrightarrow>
               projects (run es s') = projects s'
               \<and> set (filtered (run es s')) \<subseteq> set (projects s'))
         \<and> projects (render s') = projects s'"
proof -
  from assms obtain ps where m: "mapIdx normalize 0 ds = Inr ps"
    and s': "s' = render (s\<lparr>projects := ps, filtered := ps\<rparr>)"
    by (auto simp: load_try_array)
  from s' have p: "projects s' = ps" and f: "filtered s' = ps"
    by (simp_all add: render_projects render_filtered)
  have 1: "idsApart ds \<longrightarrow> distinct (map (\<lambda>p. getProp p ''id'') (projects s'))"
    using loaded_ids_distinct [OF m] p by simp
  have "set (filtered s') \<subseteq> set (projects s')" using p f by simp
  then have 2: "(\<forall>e\<in>set es. \<not> isLoaded e) \<longrightarrow>
               projects (run es s') = projects s'
               \<and> set (filtered (run es s')) \<subseteq> set (projects s')"
    using run_keeps_catalog by blast
  from 1 2 show ?thesis by (simp add: render_projects)
qed

text \<open>
  Where C3 fails as stated: in \<^verbatim>\<open>[{"id": "p2"}, {}]\<close> the second record has no id and
  is given \<^verbatim>\<open>p2\<close>, the id of the first.
\<close>

theorem catalog_ids_counterexample:
  "\<not> distinct (map (\<lambda>p. getProp p ''id'')
        (projects (load (Response 200 (Some (JArr [JObj [(''id'', JStr ''p2'')], JObj []]))) init)))"
  by code_simp

theorem catalog_ids_witness:
  "load_try (Response 200 (Some (JArr [JObj shopApp, JObj cliTool, JObj blog]))) init = Inr demo
   \<and> idsApart [JObj shopApp, JObj cliTool, JObj blog]
   \<and> list_all (\<lambda>e. \<not> isLoaded e) [FilterChanged ''web'' [], NextClicked, PrevClicked]
   \<and> distinct (map (\<lambda>p. getProp p ''id'') (projects demo))
   \<and> map (\<lambda>p. getProp p ''id'') (projects demo) = [Inr (JStr ''a''), Inr (JStr ''p2''), Inr (JStr ''p3'')]
   \<and> projects (run [FilterChanged ''web'' [], NextClicked, PrevClicked] demo) = projects demo
   \<and> projects (render demo) = projects demo"
proof -
  have a: "load_try (Response 200 (Some (JArr [JObj shopApp, JObj cliTool, JObj blog]))) init = Inr demo"
    by code_simp
  have b: "idsApart [JObj shopApp, JObj cliTool, JObj blog]" by code_simp
  have c: "list_all (\<lambda>e. \<not> isLoaded e) [FilterChanged ''web'' [], NextClicked, PrevClicked]"
    by code_simp
  then have c': "\<forall>e\<in>set [FilterChanged ''web'' [], NextClicked, PrevClicked]. \<not> isLoaded e"
    by (simp only: list_all_iff)
  have d: "map (\<lambda>p. getProp p ''id'') (projects demo) = [Inr (JStr ''a''), Inr (JStr ''p2''), Inr (JStr ''p3'')]"
    by code_simp
  note t = catalog_ids [OF a, of "[FilterChanged ''web'' [], NextClicked, PrevClicked]"]
  have 1: "distinct (map (\<lambda>p. getProp p ''id'') (projects demo))"
    using t [THEN conjunct1, THEN mp, OF b] .
  have 2: "projects (run [FilterChanged ''web'' [], NextClicked, PrevClicked] demo) = projects demo"
    using t [THEN conjunct2, THEN conjunct1, THEN mp, OF c', THEN conjunct1] .
  have 3: "projects (render demo) = projects demo"
    using t [THEN conjunct2, THEN conjunct2] .
  show ?thesis by (intro conjI) (rule a b c d 1 2 3)+
qed

text \<open>
  C4: whatever the selected tag and the typed text, when \<^verbatim>\<open>applyFilters\<close> returns, the
  filtered subset is a subsequence of the catalog: its records stand in the order they
  have there. It returns on every catalog whose records satisfy \<open>stringTech\<close>.
\<close>

theorem applyFilters_subseq:
  "(\<forall>s'. applyFilters sel typed s = Inr s' \<longrightarrow> subseq (filtered s') (projects s))
   \<and> (list_all stringTech (projects s) \<longrightarrow> (\<exists>s'. applyFilters sel typed s = Inr s'))"
proof -
  have "subseq (filtered s') (projects s)" if "applyFilters sel typed s = Inr s'" for s'
    using applyFilters_Inr [OF that] by (simp add: render_filtered)
  then show ?thesis using applyFilters_returns by blast
qed

theorem applyFilters_subseq_witness:
  "list_all stringTech (projects demo)
   \<and> applyFilters ''all'' ''REACT'' demo = Inr (onFilter ''all'' ''REACT'' demo)
   \<and> subseq (filtered (onFilter ''all'' ''REACT'' demo)) (projects demo)
   \<and> length (filtered (onFilter ''all'' ''REACT'' demo)) = 3
   \<and> length (filtered (onFilter ''react'' '' App '' demo)) = 1"
proof -
  have a: "list_all stringTech (projects demo)" by code_simp
  have b: "applyFilters ''all'' ''REACT'' demo = Inr (onFilter ''all'' ''REACT'' demo)"
    by code_simp
  have c: "length (filtered (onFilter ''all'' ''REACT'' demo)) = 3" by code_simp
  have d: "length (filtered (onFilter ''react'' '' App '' demo)) = 1" by code_simp
  from a b c d applyFilters_subseq [of "''all''" "''REACT''" demo]
  show ?thesis by blast
qed

text \<open>
  C5: from any state and for any selected tag and typed text, when \<^verbatim>\<open>applyFilters\<close>
  returns it has set the current page to 1 before \<open>render\<close> ran; afterwards the
  current page is 1, within the range of the new subset, and the grid shows the first
  six records of the new subset, or the placeholder when there is none. It returns on
  every catalog whose records satisfy \<open>stringTech\<close>.
\<close>

theorem applyFilters_page_one:
  "(\<forall>s'. applyFilters sel typed s = Inr s' \<longrightarrow>
       (\<exists>fs. s' = render (s\<lparr>filtered := fs, currentPage := 1\<rparr>))
       \<and> currentPage s' = 1
       \<and> currentPage s' \<le> max 1 \<lceil>real (length (filtered s')) / real PER_PAGE\<rceil>
       \<and> grid s' = (if filtered s' = [] then EmptyState else Cards (take PER_PAGE (filtered s'))))
   \<and> (list_all stringTech (projects s) \<longrightarrow> (\<exists>s'. applyFilters sel typed s = Inr s'))"
proof -
  have "(\<exists>fs. s' = render (s\<lparr>filtered := fs, currentPage := 1\<rparr>))
       \<and> currentPage s' = 1
       \<and> currentPage s' \<le> max 1 \<lceil>real (length (filtered s')) / real PER_PAGE\<rceil>
       \<and> grid s' = (if filtered s' = [] then EmptyState else Cards (take PER_PAGE (filtered s')))"
    if r: "applyFilters sel typed s = Inr s'" for s'
  proof -
    define fs where "fs = filter (\<lambda>p. keep sel (toLowerCase (trim typed)) p = Inr True) (projects s)"
    define t where "t = s\<lparr>filtered := fs, currentPage := 1\<rparr>"
    have s': "s' = render t" using applyFilters_Inr [OF r] by (simp add: fs_def t_def)
    have "currentPage t = 1" by (simp add: t_def)
    from render_page_one [OF this] s'
    have "currentPage s' = 1"
      and "grid s' = (if filtered s' = [] then EmptyState else Cards (take PER_PAGE (filtered s')))"
      by (simp_all add: render_filtered)
    moreover have "\<exists>fs. s' = render (s\<lparr>filtered := fs, currentPage := 1\<rparr>)"
      using s' t_def by blast
    ultimately show ?thesis by simp
  qed
  then show ?thesis using applyFilters_returns by blast
qed

theorem applyFilters_page_one_witness:
  "list_all stringTech (projects (nextClick sevenLoaded))
   \<and> currentPage (nextClick sevenLoaded) = 2
   \<and> applyFilters ''all'' ''p7'' (nextClick sevenLoaded)
       = Inr (onFilter ''all'' ''p7'' (nextClick sevenLoaded))
   \<and> currentPage (onFilter ''all'' ''p7'' (nextClick sevenLoaded)) = 1"
proof -
  have a: "list_all stringTech (projects (nextClick sevenLoaded))" by code_simp
  have b: "currentPage (nextClick sevenLoaded) = 2" by code_simp
  have c: "applyFilters ''all'' ''p7'' (nextClick sevenLoaded)
             = Inr (onFilter ''all'' ''p7'' (nextClick sevenLoaded))" by code_simp
  from a b c applyFilters_page_one [of "''all''" "''p7''" "nextClick sevenLoaded"]
  show ?thesis by blast
qed


lemma textOk_examples:
  "textOk (toLowerCase ''REACT'') (JObj shopApp) = Inr True
   \<and> textOk (toLowerCase ''react,node'') (JObj shopApp) = Inr True
   \<and> textOk (toLowerCase ''vue'') (JObj shopApp) = Inr False
   \<and> hay (JObj shopApp) = Inr ''shop app  react,node web''"
  by code_simp






text \<open>
  C9: for every source array without \<^verbatim>\<open>null\<close> elements and an ok response, the load
  succeeds, the catalog has the length of the source, and every record whose source
  object has no \<^verbatim>\<open>id\<close> field has the id \<^verbatim>\<open>p\<close> followed by its position counted from 1;
  the record at index 2 has the id \<^verbatim>\<open>p3\<close>.
\<close>

theorem load_synthesizes_id:
  assumes "ok st" "JNull \<notin> set ds" "JUndefined \<notin> set ds"
  shows "\<exists>s'. load_try (Response st (Some (JArr ds))) s = Inr s'
           \<and> length (projects s') = length ds
           \<and> (\<forall>i fs. i < length ds \<and> ds ! i = JObj fs \<and> map_of fs ''id'' = None \<longrightarrow>
                 getProp (projects s' ! i) ''id'' = Inr (JStr (''p'' @ showNat (i + 1))))
           \<and> (\<forall>fs. 2 < length ds \<and> ds ! 2 = JObj fs \<and> map_of fs ''id'' = None \<longrightarrow>
                 getProp (projects s' ! 2) ''id'' = Inr (JStr ''p3''))"
proof -
  from assms(2,3) obtain ps where m: "mapIdx normalize 0 ds = Inr ps"
    using mapIdx_normalize_total by blast
  define s' where "s' = render (s\<lparr>projects := ps, filtered := ps\<rparr>)"
  have l: "load_try (Response st (Some (JArr ds))) s = Inr s'"
    using assms(1) m by (simp add: load_try_array s'_def)
  have p: "projects s' = ps" by (simp add: s'_def render_projects)
  from mapIdx_Inr [OF m] have len: "length ps = length ds" by simp
  have id: "getProp (ps ! i) ''id'' = Inr (JStr (''p'' @ showNat (i + 1)))"
    if "i < length ds" "ds ! i = JObj fs" "map_of fs ''id'' = None" for i fs
    using mapIdx_normalize_id [OF m that(1)] that(2,3) by (simp add: sourceId_object)
  have "getProp (ps ! 2) ''id'' = Inr (JStr ''p3'')"
    if "2 < length ds" "ds ! 2 = JObj fs" "map_of fs ''id'' = None" for fs
    using id [OF that] third_id by simp
  with l p len id show ?thesis by auto
qed

theorem load_synthesizes_id_witness:
  "ok 200 \<and> JNull \<notin> set [JObj shopApp, JObj cliTool, JObj blog]
   \<and> JUndefined \<notin> set [JObj shopApp, JObj cliTool, JObj blog]
   \<and> map_of blog ''id'' = None
   \<and> getProp (projects demo ! 2) ''id'' = Inr (JStr ''p3'')"
proof -
  have a: "ok 200" by code_simp
  have b: "JNull \<notin> set [JObj shopApp, JObj cliTool, JObj blog]" by simp
  have c: "JUndefined \<notin> set [JObj shopApp, JObj cliTool, JObj blog]" by simp
  have d: "map_of blog ''id'' = None" by code_simp
  from load_synthesizes_id [OF a b c, of init] obtain s'
    where l: "load_try (Response 200 (Some (JArr [JObj shopApp, JObj cliTool, JObj blog]))) init = Inr s'"
      and i: "\<forall>fs. 2 < length [JObj shopApp, JObj cliTool, JObj blog]
                  \<and> [JObj shopApp, JObj cliTool, JObj blog] ! 2 = JObj fs \<and> map_of fs ''id'' = None \<longrightarrow>
                 getProp (projects s' ! 2) ''id'' = Inr (JStr ''p3'')"
    by blast
  from l have "demo = s'" by (simp add: demo_def load_def)
  moreover from i d have "getProp (projects s' ! 2) ''id'' = Inr (JStr ''p3'')" by simp
  ultimately have e: "getProp (projects demo ! 2) ''id'' = Inr (JStr ''p3'')" by simp
  show ?thesis by (intro conjI) (rule a b c d e)+
qed



end
